theory Spec2Isabelle
  imports Complex_Main "HOL-Library.Word"
begin

text \<open>
  The page script \<^verbatim>\<open>frontend/app.js\<close> of the reader: building the captions from
  the transcript, the frame callback that keeps the caption in step with the audio clock,
  polling a job, and restoring the playback position.  The file holds two revisions of
  the script; the model follows the first.  The second shows the captions as a scrolling
  list instead of one overlay line; its scan loop in \<open>synccaptions\<close>, its computation of
  text, start and end in \<open>buildcaptions\<close> and its test of the stored position are the
  same.
\<close>

section \<open>JavaScript strings and numbers\<close>

text \<open>
  A JavaScript string is a sequence of UTF-16 code units.  Caption text goes through
  \<^verbatim>\<open>String.prototype.trim\<close>, which depends on the code units, so caption
  text is a list of 16-bit words.  \<open>utf16\<close> embeds an ASCII literal.  Keys, URLs, status
  tokens and style values are only compared and concatenated; they are HOL strings.
\<close>

type_synonym jsstring = "16 word list"

definition utf16 :: "string \<Rightarrow> jsstring" where
  "utf16 s = map (\<lambda>c. of_nat (of_char c)) s"

text \<open>
  \<^verbatim>\<open>trim\<close> removes leading and trailing white space and line terminators of
  ECMAScript: TAB, VT, FF, ZWNBSP, the code points of category Zs, and LF, CR, LS, PS.
  All of them lie in the Basic Multilingual Plane, that is, each is one code unit.
\<close>

definition is_ws :: "16 word \<Rightarrow> bool" where
  "is_ws c \<longleftrightarrow>
     c \<in> set [0x9, 0xA, 0xB, 0xC, 0xD, 0x20, 0xA0, 0x1680, 0x2028, 0x2029,
              0x202F, 0x205F, 0x3000, 0xFEFF]
     \<or> (0x2000 \<le> c \<and> c \<le> 0x200A)"

definition trim :: "jsstring \<Rightarrow> jsstring" where
  "trim s = rev (dropWhile is_ws (rev (dropWhile is_ws s)))"

text \<open>\<^verbatim>\<open>Array.prototype.join(' ')\<close> on an array of strings.\<close>

fun join_sp :: "jsstring list \<Rightarrow> jsstring" where
  "join_sp [] = []"
| "join_sp [x] = x"
| "join_sp (x # y # ys) = x @ [0x20] @ join_sp (y # ys)"

text \<open>
  The result of \<^verbatim>\<open>parseFloat\<close> is a number that may be NaN or infinite.
\<close>

datatype jsnumber = NaN | Num real | PosInfinity | NegInfinity

fun js_gt :: "jsnumber \<Rightarrow> real \<Rightarrow> bool" where
  "js_gt NaN b = False"
| "js_gt (Num a) b = (a > b)"
| "js_gt PosInfinity b = True"
| "js_gt NegInfinity b = False"

section \<open>Caption segments and the active-segment scan\<close>


text \<open>
  The client keeps the captions as an array of \<open>{ text, start, end }\<close> objects.
  Times are JavaScript numbers taken from the JSON transcript.  The scan only compares
  times, and on numbers other than NaN the comparisons \<^verbatim>\<open>>=\<close>,
  \<^verbatim>\<open><=\<close> and \<^verbatim>\<open>>\<close> of JavaScript are those of a linear
  order, so a time is modelled as the real number that the JavaScript number denotes.
\<close>

record segment =
  seg_text :: jsstring
  seg_start :: real
  seg_end :: real

text \<open>
  The loop of \<open>synccaptions\<close>:
  \<^verbatim>\<open>
  let idx = -1;
  for (let i = 0; i < segments.length; i++) {
      if (t >= segments[i].start && t <= segments[i].end) { idx = i; break; }
      if (segments[i].start > t) break;
  }
  \<close>
  \<open>scan_from segs t i\<close> is the value of \<open>idx\<close> after the loop when it is entered with
  loop counter \<open>i\<close> (and \<open>idx = -1\<close>).
\<close>

function scan_from :: "segment list \<Rightarrow> real \<Rightarrow> nat \<Rightarrow> int" where
  "scan_from segs t i =
     (if i < length segs then
        (if t \<ge> seg_start (segs ! i) \<and> t \<le> seg_end (segs ! i) then int i
         else if seg_start (segs ! i) > t then - 1
         else scan_from segs t (Suc i))
      else - 1)"
  by pat_completeness auto
termination
  by (relation "measure (\<lambda>(segs, t, i). length segs - i)") auto

declare scan_from.simps [simp del]

text \<open>
  The scan as the specification words it, without the early exit: the first segment of
  the whole list with \<open>start \<le> t \<le> end\<close>, and \<open>-1\<close> when there is none.  It is used only
  to compare the implemented loop with.
\<close>

fun full_scan :: "segment list \<Rightarrow> real \<Rightarrow> nat \<Rightarrow> int" where
  "full_scan [] t i = - 1"
| "full_scan (s # ss) t i =
     (if seg_start s \<le> t \<and> t \<le> seg_end s then int i else full_scan ss t (Suc i))"

section \<open>The transcript received from the server\<close>

text \<open>
  The status response carries
  \<open>{segments: [{text?, start, end, words?: [{word, start, end}]}]}\<close>.  An absent
  property (\<^verbatim>\<open>undefined\<close>) is \<open>None\<close>.
\<close>

record raw_word =
  w_word :: jsstring
  w_start :: real
  w_end :: real

record raw_segment =
  r_text :: "jsstring option"
  r_start :: real
  r_end :: real
  r_words :: "raw_word list option"

record transcript =
  tr_segments :: "raw_segment list option"

section \<open>The state of the page script\<close>

text \<open>
  The variables of the script's closure and the parts of the document, the audio
  element and the local storage that the modelled functions read or write.  \<open>poll\<close> is
  the job that the running interval timer asks for, \<open>None\<close> when no timer runs.  An
  element looked up with a guard (\<^verbatim>\<open>if ($('landingPage'))\<close>) is \<open>None\<close> when the
  document lacks it, and otherwise holds its \<open>display\<close> style.
\<close>

record app_state =
  poll :: "string option"
  segments :: "segment list"
  activeIdx :: int
  currentJobId :: "string option"
  captionsVisible :: bool
  audioPathName :: string
  captionText :: jsstring
  statusText :: string
  statusClass :: string
  uploadBtnDisabled :: bool
  uploadBtnLoading :: bool
  currentTime :: real
  audioSrc :: string
  audioBarDisplay :: string
  pdfFrameSrc :: string
  pdfFrameDisplay :: string
  pdfEmpty :: bool
  landingPage :: "string option"
  topBar :: "string option"
  mainContentDisplay :: string
  pdfPanelDisplay :: string
  panelTogglesDisplay :: string
  captionOverlayHidden :: bool
  toggleCaptionsActive :: bool
  toggleCaptionsPressed :: string
  localStorage :: "string \<rightharpoonup> string"

section \<open>Building the captions\<close>

text \<open>
  The constants of the loop body of \<open>buildcaptions\<close>:
  \<^verbatim>\<open>
  const hasW = seg.words?.length > 0;
  const text = (hasW ? seg.words.map(w => w.word.trim()).join(' ') : seg.text || '').trim();
  const start = hasW ? seg.words[0].start : seg.start;
  const end = hasW ? seg.words.at(-1).end : seg.end;
  \<close>
  \<open>raw_text\<close> is the operand of the outer \<^verbatim>\<open>trim\<close>: the text as reconstructed
  from the words, or the segment's own.
\<close>

definition words_of :: "raw_segment \<Rightarrow> raw_word list" where
  "words_of seg = (case r_words seg of None \<Rightarrow> [] | Some ws \<Rightarrow> ws)"

definition hasW :: "raw_segment \<Rightarrow> bool" where
  "hasW seg \<longleftrightarrow> (case r_words seg of None \<Rightarrow> False | Some ws \<Rightarrow> length ws > 0)"

definition raw_text :: "raw_segment \<Rightarrow> jsstring" where
  "raw_text seg =
     (if hasW seg then join_sp (map (\<lambda>w. trim (w_word w)) (words_of seg))
      else (case r_text seg of None \<Rightarrow> [] | Some s \<Rightarrow> s))"

definition text_of :: "raw_segment \<Rightarrow> jsstring" where
  "text_of seg = trim (raw_text seg)"

definition start_of :: "raw_segment \<Rightarrow> real" where
  "start_of seg = (if hasW seg then w_start (hd (words_of seg)) else r_start seg)"

definition end_of :: "raw_segment \<Rightarrow> real" where
  "end_of seg = (if hasW seg then w_end (last (words_of seg)) else r_end seg)"

text \<open>
  The loop \<^verbatim>\<open>for (const seg of data.segments)\<close>, with the array pushed to as
  accumulator: \<^verbatim>\<open>if (!text) continue; ... segments.push({ text, start, end });\<close>
\<close>

fun build_loop :: "raw_segment list \<Rightarrow> segment list \<Rightarrow> segment list" where
  "build_loop [] segs = segs"
| "build_loop (seg # rest) segs =
     (if text_of seg = [] then build_loop rest segs
      else build_loop rest
             (segs @ [\<lparr>seg_text = text_of seg, seg_start = start_of seg, seg_end = end_of seg\<rparr>]))"

definition buildcaptions :: "transcript option \<Rightarrow> app_state \<Rightarrow> app_state" where
  "buildcaptions data st =
     (let st1 = st\<lparr>segments := [], activeIdx := - 1, captionText := []\<rparr>
      in case data of
           None \<Rightarrow> st1
         | Some d \<Rightarrow>
             (case tr_segments d of
                None \<Rightarrow> st1
              | Some raws \<Rightarrow> st1\<lparr>segments := build_loop raws []\<rparr>))"

section \<open>The frame callback\<close>

text \<open>
  \<open>synccaptions\<close> is the callback of \<^verbatim>\<open>requestAnimationFrame\<close>; it asks for the
  next frame first, so that the browser calls it once per display frame.  Between two
  calls the audio element moves its clock (playing or seeking).

  The frame starts with \<^verbatim>\<open>const t = audioPlayer.currentTime + 0.15\<close>.  This is
  an addition of IEEE doubles: the literal is the double nearest to 0.15 and the sum is
  rounded, so \<open>t\<close> need not be the exact sum (for the clock 0.14 it is
  0.29000000000000004).  The addition belongs to the platform and is the parameter
  \<open>lead\<close>: \<open>lead x\<close> is the value of \<^verbatim>\<open>x + 0.15\<close> for the number \<open>x\<close>.
\<close>

definition synccaptions :: "(real \<Rightarrow> real) \<Rightarrow> app_state \<Rightarrow> app_state" where
  "synccaptions lead st =
     (if segments st = [] \<or> \<not> captionsVisible st then st
      else
        let t = lead (currentTime st);
            idx = scan_from (segments st) t 0
        in if idx \<noteq> activeIdx st then
             st\<lparr>activeIdx := idx,
                captionText := (if idx \<noteq> - 1 then seg_text (segments st ! nat idx) else [])\<rparr>
           else st)"

fun run_frames :: "(real \<Rightarrow> real) \<Rightarrow> app_state \<Rightarrow> real list \<Rightarrow> app_state" where
  "run_frames lead st [] = st"
| "run_frames lead st (c # cs) = run_frames lead (synccaptions lead (st\<lparr>currentTime := c\<rparr>)) cs"

text \<open>
  The caption overlay is one text node: it shows the text of the segment \<open>activeIdx\<close>
  points to.  \<open>shown\<close> is the set of segments on display, and \<open>caption_inv\<close> says that the
  overlay and \<open>activeIdx\<close> agree, as they do after \<open>buildcaptions\<close> and after every frame.
\<close>

definition shown :: "app_state \<Rightarrow> nat set" where
  "shown st =
     (if 0 \<le> activeIdx st \<and> nat (activeIdx st) < length (segments st)
      then {nat (activeIdx st)} else {})"

definition caption_inv :: "app_state \<Rightarrow> bool" where
  "caption_inv st \<longleftrightarrow>
     (activeIdx st = - 1 \<and> captionText st = []) \<or>
     (0 \<le> activeIdx st \<and> nat (activeIdx st) < length (segments st) \<and>
      captionText st = seg_text (segments st ! nat (activeIdx st)))"

section \<open>Polling a job and opening the reader\<close>

definition setStatus :: "string \<Rightarrow> string \<Rightarrow> app_state \<Rightarrow> app_state" where
  "setStatus txt type st = st\<lparr>statusText := txt, statusClass := ''status-msg '' @ type\<rparr>"

definition bool_string :: "bool \<Rightarrow> string" where
  "bool_string b = (if b then ''true'' else ''false'')"

definition applyPanelVisibility :: "app_state \<Rightarrow> app_state" where
  "applyPanelVisibility st =
     st\<lparr>panelTogglesDisplay := ''flex'',
        captionOverlayHidden := \<not> captionsVisible st,
        toggleCaptionsActive := captionsVisible st,
        toggleCaptionsPressed := bool_string (captionsVisible st),
        localStorage := (localStorage st)
                          (''panelCaptionsVisible'' \<mapsto> bool_string (captionsVisible st))\<rparr>"

text \<open>
  \<^verbatim>\<open>function show(pdfUrl, audioUrl, transcript, title)\<close>; the name \<open>show\<close> is taken
  in Isabelle.
\<close>

definition show_reader ::
  "string \<Rightarrow> string \<Rightarrow> transcript option \<Rightarrow> string \<Rightarrow> app_state \<Rightarrow> app_state" where
  "show_reader pdfUrl audioUrl tscript title st =
     (let st1 = st\<lparr>pdfEmpty := False,
                   landingPage := map_option (\<lambda>_. ''none'') (landingPage st),
                   topBar := map_option (\<lambda>_. ''none'') (topBar st),
                   mainContentDisplay := ''flex'',
                   pdfPanelDisplay := ''block''\<rparr>;
          st2 = applyPanelVisibility st1;
          paramStr = (if CHR ''#'' \<in> set pdfUrl then ''&'' else ''#'');
          st3 = st2\<lparr>pdfFrameSrc := pdfUrl @ paramStr @ ''pageLayout=TwoPageRight&view=Fit'',
                    pdfFrameDisplay := ''block'',
                    audioSrc := audioUrl,
                    audioBarDisplay := ''block''\<rparr>
      in buildcaptions tscript st3)"

text \<open>
  What a poll receives: the request fails (\<^verbatim>\<open>catch(() => null)\<close>), the response
  is not \<^verbatim>\<open>ok\<close>, its body is not JSON (the callback's promise rejects), or the
  body is a status object.
\<close>

record status_data =
  d_status :: string
  d_pdf_url :: string
  d_audio_url :: string
  d_transcript :: "transcript option"
  d_title :: string

datatype fetch_result = FetchFailed | NotOk | BadBody | Body status_data

definition startPoll :: "string \<Rightarrow> app_state \<Rightarrow> app_state" where
  "startPoll job st = st\<lparr>poll := Some job\<rparr>"

text \<open>
  The callback of the interval timer of \<open>startPoll job\<close>.  Its effects come after its last
  \<^verbatim>\<open>await\<close>, so they are one step on the state.
\<close>

definition poll_callback :: "string \<Rightarrow> fetch_result \<Rightarrow> app_state \<Rightarrow> app_state" where
  "poll_callback job res st =
     (case res of
        Body d \<Rightarrow>
          if d_status d = ''completed'' then
            show_reader (d_pdf_url d) (d_audio_url d) (d_transcript d) (d_title d)
              ((setStatus ''Ready'' ''ready'' (st\<lparr>poll := None\<rparr>))
                 \<lparr>uploadBtnDisabled := False, uploadBtnLoading := False,
                  currentJobId := Some job\<rparr>)
          else if d_status d = ''error'' then
            (setStatus ''Error'' ''error'' (st\<lparr>poll := None\<rparr>))
              \<lparr>uploadBtnDisabled := False, uploadBtnLoading := False\<rparr>
          else st
      | _ \<Rightarrow> st)"

fun poll_run :: "string \<Rightarrow> fetch_result list \<Rightarrow> app_state \<Rightarrow> app_state" where
  "poll_run job [] st = st"
| "poll_run job (r # rs) st = poll_run job rs (poll_callback job r st)"

text \<open>
  What \<open>show\<close> sets up: the reader view is the main content with the PDF frame, the audio
  bar and the captions.
\<close>

definition reader_view ::
  "app_state \<Rightarrow> string \<times> string \<times> string \<times> string \<times> string \<times> string \<times> segment list" where
  "reader_view st =
     (mainContentDisplay st, pdfPanelDisplay st, pdfFrameSrc st, pdfFrameDisplay st,
      audioSrc st, audioBarDisplay st, segments st)"

definition is_completed :: "fetch_result \<Rightarrow> bool" where
  "is_completed res \<longleftrightarrow> (case res of Body d \<Rightarrow> d_status d = ''completed'' | _ \<Rightarrow> False)"

section \<open>Restoring the playback position\<close>

text \<open>
  The handler of \<^verbatim>\<open>loadedmetadata\<close>.  \<^verbatim>\<open>new URL(src).pathname\<close> and
  \<^verbatim>\<open>parseFloat\<close> belong to the platform and are parameters.  The audio element
  refuses a value that is not finite with a TypeError, which ends the handler.
\<close>

definition set_currentTime :: "jsnumber \<Rightarrow> app_state \<Rightarrow> app_state" where
  "set_currentTime v st = (case v of Num r \<Rightarrow> st\<lparr>currentTime := r\<rparr> | _ \<Rightarrow> st)"

definition loadedmetadata ::
  "(string \<Rightarrow> string) \<Rightarrow> (string \<Rightarrow> jsnumber) \<Rightarrow> app_state \<Rightarrow> app_state" where
  "loadedmetadata pathname parseFloat st =
     (let st1 = st\<lparr>audioPathName := pathname (audioSrc st)\<rparr>;
          savedTime = localStorage st1 (''pos_'' @ audioPathName st1)
      in case savedTime of
           None \<Rightarrow> st1
         | Some s \<Rightarrow>
             if s \<noteq> [] \<and> js_gt (parseFloat s) 2 then set_currentTime (parseFloat s) st1
             else st1)"

section \<open>Example data\<close>

text \<open>
  A page on which no job has been opened yet (captions are on by default), and small
  transcripts: three and two segments without word timings, two overlapping segments,
  and segments with word timings.
\<close>

definition idle_state :: app_state where
  "idle_state =
     \<lparr>poll = None, segments = [], activeIdx = - 1, currentJobId = None,
      captionsVisible = True, audioPathName = [], captionText = [],
      statusText = [], statusClass = [], uploadBtnDisabled = True, uploadBtnLoading = False,
      currentTime = 0, audioSrc = [], audioBarDisplay = ''none'',
      pdfFrameSrc = [], pdfFrameDisplay = ''none'', pdfEmpty = True,
      landingPage = Some [], topBar = Some [], mainContentDisplay = ''none'',
      pdfPanelDisplay = ''none'', panelTogglesDisplay = ''none'',
      captionOverlayHidden = False, toggleCaptionsActive = True,
      toggleCaptionsPressed = ''true'', localStorage = Map.empty\<rparr>"

definition plain_segment :: "string \<Rightarrow> real \<Rightarrow> real \<Rightarrow> raw_segment" where
  "plain_segment txt a b = \<lparr>r_text = Some (utf16 txt), r_start = a, r_end = b, r_words = None\<rparr>"

definition worded_segment :: "(string \<times> real \<times> real) list \<Rightarrow> raw_segment" where
  "worded_segment ws =
     \<lparr>r_text = None, r_start = 0, r_end = 0,
      r_words = Some (map (\<lambda>(w, a, b). \<lparr>w_word = utf16 w, w_start = a, w_end = b\<rparr>) ws)\<rparr>"

definition transcript3 :: transcript where
  "transcript3 =
     \<lparr>tr_segments = Some [plain_segment ''one'' 0 2, plain_segment ''two'' 2 4,
                          plain_segment ''three'' 5 7]\<rparr>"

definition transcript2 :: transcript where
  "transcript2 = \<lparr>tr_segments = Some [plain_segment ''one'' 0 2, plain_segment ''two'' 2 4]\<rparr>"

definition transcript_overlap :: transcript where
  "transcript_overlap =
     \<lparr>tr_segments = Some [plain_segment ''one'' 0 3, plain_segment ''two'' 2 4]\<rparr>"

definition the_cat :: raw_segment where
  "the_cat = worded_segment [(''the'', 0.0, 0.2), (''cat'', 0.2, 0.5)]"

definition transcript_rounding :: transcript where
  "transcript_rounding =
     \<lparr>tr_segments = Some [plain_segment ''one'' 0 0.29, plain_segment ''two'' 0.29 1]\<rparr>"

text \<open>
  The lead addition at the clock values of the examples.  At 0.14 the double sum is
  rounded up to 0.29000000000000004; at 0, 0.35, 1.5, 1.75, 1.85, 1.95, 2.35, 5.85 and 7
  it is the double that the exact decimal sum names.
\<close>

definition lead_example :: "real \<Rightarrow> real" where
  "lead_example c = (if c = 0.14 then 0.29000000000000004 else c + 0.15)"

definition blank_raws :: "raw_segment list" where
  "blank_raws =
     [plain_segment ''one'' 0 2, plain_segment ''   '' 2 3,
      worded_segment [('' '', 3, 3.5)],
      \<lparr>r_text = None, r_start = 4, r_end = 5, r_words = Some []\<rparr>,
      plain_segment '' two '' 5 7]"

text \<open>Status responses, a stand-in for \<^verbatim>\<open>parseFloat\<close>, and a stored position.\<close>

definition error_body :: status_data where
  "error_body = \<lparr>d_status = ''error'', d_pdf_url = [], d_audio_url = [],
                  d_transcript = None, d_title = ''Book''\<rparr>"

definition queued_body :: status_data where
  "queued_body = \<lparr>d_status = ''queued'', d_pdf_url = [], d_audio_url = [],
                   d_transcript = None, d_title = ''Book''\<rparr>"

definition completed_body :: status_data where
  "completed_body = \<lparr>d_status = ''completed'', d_pdf_url = ''/uploads/b.pdf'',
                      d_audio_url = ''/uploads/a.mp3'', d_transcript = Some transcript3,
                      d_title = ''Book''\<rparr>"

definition parse_example :: "string \<Rightarrow> jsnumber" where
  "parse_example s =
     (if s = ''12.5'' then Num 12.5 else if s = ''1.5'' then Num 1.5
      else if s = ''Infinity'' then PosInfinity else NaN)"

definition stored_state :: "string \<Rightarrow> app_state" where
  "stored_state v =
     idle_state\<lparr>audioSrc := ''/uploads/a.mp3'',
                 localStorage := [''pos_/uploads/a.mp3'' \<mapsto> v]\<rparr>"

section \<open>Properties of the scan\<close>

lemmas ex_defs = idle_state_def plain_segment_def worded_segment_def transcript3_def
  transcript2_def transcript_overlap_def transcript_rounding_def the_cat_def blank_raws_def
  utf16_def
lemmas build_defs = buildcaptions_def text_of_def raw_text_def hasW_def words_of_def
  start_of_def end_of_def trim_def is_ws_def

lemma scan_from_found:
  "scan_from segs t i = int k \<Longrightarrow>
     i \<le> k \<and> k < length segs \<and> seg_start (segs ! k) \<le> t \<and> t \<le> seg_end (segs ! k) \<and>
     (\<forall>j. i \<le> j \<and> j < k \<longrightarrow> \<not> (seg_start (segs ! j) \<le> t \<and> t \<le> seg_end (segs ! j)))"
proof (induction segs t i rule: scan_from.induct)
  case (1 segs t i)
  show ?case
  proof (cases "i < length segs")
    case False
    with "1.prems" show ?thesis by (simp add: scan_from.simps [of segs t i])
  next
    case inb: True
    show ?thesis
    proof (cases "t \<ge> seg_start (segs ! i) \<and> t \<le> seg_end (segs ! i)")
      case True
      with inb "1.prems" have "k = i" by (simp add: scan_from.simps [of segs t i])
      with inb True show ?thesis by simp
    next
      case nq: False
      show ?thesis
      proof (cases "seg_start (segs ! i) > t")
        case True
        with inb nq "1.prems" show ?thesis by (simp add: scan_from.simps [of segs t i])
      next
        case False
        with inb nq "1.prems" have r: "scan_from segs t (Suc i) = int k"
          by (simp add: scan_from.simps [of segs t i])
        from "1.IH" [OF inb nq False r] have ih:
          "Suc i \<le> k" "k < length segs" "seg_start (segs ! k) \<le> t" "t \<le> seg_end (segs ! k)"
          "\<forall>j. Suc i \<le> j \<and> j < k \<longrightarrow> \<not> (seg_start (segs ! j) \<le> t \<and> t \<le> seg_end (segs ! j))"
          by auto
        have "\<not> (seg_start (segs ! j) \<le> t \<and> t \<le> seg_end (segs ! j))" if "i \<le> j" "j < k" for j
        proof (cases "j = i")
          case True
          with nq show ?thesis by simp
        next
          case False
          with that have "Suc i \<le> j" by simp
          with ih(5) that show ?thesis by blast
        qed
        with ih show ?thesis by auto
      qed
    qed
  qed
qed

lemma scan_from_none:
  "sorted (map seg_start segs) \<Longrightarrow> scan_from segs t i = - 1 \<Longrightarrow> i \<le> j \<Longrightarrow> j < length segs \<Longrightarrow>
     \<not> (seg_start (segs ! j) \<le> t \<and> t \<le> seg_end (segs ! j))"
proof (induction segs t i rule: scan_from.induct)
  case (1 segs t i)
  from "1.prems" have inb: "i < length segs" by simp
  show ?case
  proof (cases "t \<ge> seg_start (segs ! i) \<and> t \<le> seg_end (segs ! i)")
    case True
    with inb "1.prems"(2) show ?thesis by (simp add: scan_from.simps [of segs t i])
  next
    case nq: False
    show ?thesis
    proof (cases "seg_start (segs ! i) > t")
      case True
      from "1.prems"(1,3,4) have "seg_start (segs ! i) \<le> seg_start (segs ! j)"
        using sorted_nth_mono [of "map seg_start segs" i j] by simp
      with True show ?thesis by simp
    next
      case False
      with inb nq "1.prems"(2) have r: "scan_from segs t (Suc i) = - 1"
        by (simp add: scan_from.simps [of segs t i])
      show ?thesis
      proof (cases "j = i")
        case True
        with nq show ?thesis by simp
      next
        case False
        with "1.prems"(3) have "Suc i \<le> j" by simp
        from "1.IH" [OF inb nq \<open>\<not> t < seg_start (segs ! i)\<close> "1.prems"(1) r this "1.prems"(4)]
        show ?thesis .
      qed
    qed
  qed
qed

lemma full_scan_none:
  "\<forall>s \<in> set ss. \<not> (seg_start s \<le> t \<and> t \<le> seg_end s) \<Longrightarrow> full_scan ss t i = - 1"
  by (induction ss arbitrary: i) auto

lemma scan_from_full_scan:
  "sorted (map seg_start segs) \<Longrightarrow> scan_from segs t i = full_scan (drop i segs) t i"
proof (induction segs t i rule: scan_from.induct)
  case (1 segs t i)
  show ?case
  proof (cases "i < length segs")
    case False
    then show ?thesis by (simp add: scan_from.simps [of segs t i])
  next
    case inb: True
    then have d: "drop i segs = segs ! i # drop (Suc i) segs"
      by (simp add: Cons_nth_drop_Suc)
    show ?thesis
    proof (cases "t \<ge> seg_start (segs ! i) \<and> t \<le> seg_end (segs ! i)")
      case True
      with inb d show ?thesis by (simp add: scan_from.simps [of segs t i])
    next
      case nq: False
      show ?thesis
      proof (cases "seg_start (segs ! i) > t")
        case True
        have "\<not> (seg_start s \<le> t \<and> t \<le> seg_end s)" if "s \<in> set (drop (Suc i) segs)" for s
        proof -
          from that obtain n where n: "n < length (drop (Suc i) segs)" "s = drop (Suc i) segs ! n"
            by (auto simp: in_set_conv_nth)
          then have s: "s = segs ! (Suc i + n)" "Suc i + n < length segs" by auto
          with "1.prems" have "seg_start (segs ! i) \<le> seg_start (segs ! (Suc i + n))"
            using sorted_nth_mono [of "map seg_start segs" i "Suc i + n"] inb by simp
          with True s show ?thesis by simp
        qed
        then have "full_scan (drop (Suc i) segs) t (Suc i) = - 1"
          by (intro full_scan_none) blast
        with inb nq True d show ?thesis by (simp add: scan_from.simps [of segs t i])
      next
        case False
        from "1.IH" [OF inb nq False "1.prems"]
        have "scan_from segs t (Suc i) = full_scan (drop (Suc i) segs) t (Suc i)" .
        with inb nq False d show ?thesis by (simp add: scan_from.simps [of segs t i])
      qed
    qed
  qed
qed


lemma scan_from_cases:
  "scan_from segs t i = - 1 \<or> (\<exists>k. scan_from segs t i = int k)"
proof (induction segs t i rule: scan_from.induct)
  case (1 segs t i)
  show ?case
  proof (cases "i < length segs")
    case False
    then show ?thesis by (simp add: scan_from.simps [of segs t i])
  next
    case True
    with "1.IH" show ?thesis
      by (cases "t \<ge> seg_start (segs ! i) \<and> t \<le> seg_end (segs ! i)";
          cases "seg_start (segs ! i) > t")
         (auto simp: scan_from.simps [of segs t i])
  qed
qed

lemma synccaptions_activeIdx:
  "segments st \<noteq> [] \<Longrightarrow> captionsVisible st \<Longrightarrow>
     activeIdx (synccaptions lead st) = scan_from (segments st) (lead (currentTime st)) 0"
  by (simp add: synccaptions_def Let_def)

text \<open>
  Claim C1.  Let the segments be sorted by start time, and let a frame run (there are
  segments and the captions are on).  The frame computes \<open>t\<close> as the value of
  \<^verbatim>\<open>currentTime + 0.15\<close>, that is \<open>lead (currentTime st)\<close>, and makes
  active the index the scan returns.  If some segment has \<open>start \<le> t \<le> end\<close>, that index is
  the smallest such index, also when several segments qualify; if none has, it is \<open>-1\<close>.
\<close>

theorem synccaptions_selects_first_match:
  assumes "sorted (map seg_start (segments st))"
    and "segments st \<noteq> []" and "captionsVisible st"
  shows "let t = lead (currentTime st);
             idx = scan_from (segments st) t 0;
             qual = (\<lambda>i. seg_start (segments st ! i) \<le> t \<and> t \<le> seg_end (segments st ! i))
         in activeIdx (synccaptions lead st) = idx \<and>
            (if \<exists>i < length (segments st). qual i
             then 0 \<le> idx \<and> nat idx < length (segments st) \<and> qual (nat idx) \<and>
                  (\<forall>j < nat idx. \<not> qual j)
             else idx = - 1)"
proof -
  define t where "t = lead (currentTime st)"
  define segs where "segs = segments st"
  define idx where "idx = scan_from segs t 0"
  have act: "activeIdx (synccaptions lead st) = idx"
    using assms(2,3) by (simp add: synccaptions_activeIdx idx_def t_def segs_def)
  have srt: "sorted (map seg_start segs)" using assms(1) by (simp add: segs_def)
  consider (none) "idx = - 1" | (some) k where "idx = int k"
    using scan_from_cases [of segs t 0] by (auto simp: idx_def)
  then have "if \<exists>i < length segs. seg_start (segs ! i) \<le> t \<and> t \<le> seg_end (segs ! i)
        then 0 \<le> idx \<and> nat idx < length segs \<and>
             (seg_start (segs ! nat idx) \<le> t \<and> t \<le> seg_end (segs ! nat idx)) \<and>
             (\<forall>j < nat idx. \<not> (seg_start (segs ! j) \<le> t \<and> t \<le> seg_end (segs ! j)))
        else idx = - 1"
  proof cases
    case none
    then have "\<not> (seg_start (segs ! j) \<le> t \<and> t \<le> seg_end (segs ! j))" if "j < length segs" for j
      using scan_from_none [OF srt _ _ that, of t 0] by (simp add: idx_def)
    with none show ?thesis by auto
  next
    case some
    from scan_from_found [of segs t 0 k] some
    have "k < length segs" "seg_start (segs ! k) \<le> t" "t \<le> seg_end (segs ! k)"
      "\<forall>j. j < k \<longrightarrow> \<not> (seg_start (segs ! j) \<le> t \<and> t \<le> seg_end (segs ! j))"
      by (auto simp: idx_def)
    with some show ?thesis by auto
  qed
  with act show ?thesis
    unfolding Let_def t_def [symmetric] segs_def [symmetric] idx_def [symmetric] by simp
qed

theorem synccaptions_selects_first_match_witness:
  "sorted (map seg_start (segments (buildcaptions (Some transcript_overlap) idle_state))) \<and>
   captionsVisible (buildcaptions (Some transcript_overlap) idle_state) \<and>
   activeIdx (synccaptions lead_example ((buildcaptions (Some transcript_overlap) idle_state)
                               \<lparr>currentTime := 2.35\<rparr>)) = 0 \<and>
   sorted (map seg_start (segments (buildcaptions (Some transcript_rounding) idle_state))) \<and>
   activeIdx (synccaptions lead_example ((buildcaptions (Some transcript_rounding) idle_state)
                               \<lparr>currentTime := 0.14\<rparr>)) = 1"
proof -
  let ?built = "buildcaptions (Some transcript_overlap) idle_state"
  let ?st = "?built\<lparr>currentTime := 2.35\<rparr>"
  have segs: "segments ?built = [\<lparr>seg_text = utf16 ''one'', seg_start = 0, seg_end = 3\<rparr>,
                                 \<lparr>seg_text = utf16 ''two'', seg_start = 2, seg_end = 4\<rparr>]"
    by (simp add: ex_defs build_defs)
  have h1: "sorted (map seg_start (segments ?st))" by (simp add: segs)
  have h2: "segments ?st \<noteq> []" by (simp add: segs)
  have h3: "captionsVisible ?st" by (simp add: ex_defs build_defs)
  have a: "activeIdx (synccaptions lead_example ?st) = 0"
    using synccaptions_selects_first_match [OF h1 h2 h3, where lead = lead_example]
    by (simp add: Let_def scan_from.simps segs lead_example_def)
  let ?other = "buildcaptions (Some transcript_rounding) idle_state"
  let ?su = "?other\<lparr>currentTime := 0.14\<rparr>"
  have segu: "segments ?other =
                [\<lparr>seg_text = utf16 ''one'', seg_start = 0, seg_end = 0.29\<rparr>,
                 \<lparr>seg_text = utf16 ''two'', seg_start = 0.29, seg_end = 1\<rparr>]"
    by (simp add: ex_defs build_defs)
  have k1: "sorted (map seg_start (segments ?su))" by (simp add: segu)
  have k2: "segments ?su \<noteq> []" by (simp add: segu)
  have k3: "captionsVisible ?su" by (simp add: ex_defs build_defs)
  have b: "activeIdx (synccaptions lead_example ?su) = 1"
    using synccaptions_selects_first_match [OF k1 k2 k3, where lead = lead_example]
    by (simp add: Let_def scan_from.simps segu lead_example_def)
  from a b h1 h3 k1 show ?thesis by simp
qed

section \<open>The example transcripts, normalised\<close>

lemma transcript3_segments:
  "segments (buildcaptions (Some transcript3) st) =
     [\<lparr>seg_text = utf16 ''one'', seg_start = 0, seg_end = 2\<rparr>,
      \<lparr>seg_text = utf16 ''two'', seg_start = 2, seg_end = 4\<rparr>,
      \<lparr>seg_text = utf16 ''three'', seg_start = 5, seg_end = 7\<rparr>]"
  by (simp add: ex_defs build_defs)

lemma transcript2_segments:
  "segments (buildcaptions (Some transcript2) st) =
     [\<lparr>seg_text = utf16 ''one'', seg_start = 0, seg_end = 2\<rparr>,
      \<lparr>seg_text = utf16 ''two'', seg_start = 2, seg_end = 4\<rparr>]"
  by (simp add: ex_defs build_defs)

text \<open>
  Claim C2, as stated: with segments timed (0,2), (2,4), (5,7) the query at \<open>t = 2\<close> makes
  segment 1 active.  The loop tests \<open>start \<le> t \<le> end\<close> from the first segment on, so at the
  shared boundary it stops at segment 0; so does a frame whose clock is at 1.85, for which
  \<open>t = 2\<close>.
\<close>

theorem shared_boundary_counterexample:
  "scan_from (segments (buildcaptions (Some transcript3) idle_state)) 2 0 = 0 \<and>
   scan_from (segments (buildcaptions (Some transcript3) idle_state)) 2 0 \<noteq> 1 \<and>
   activeIdx (synccaptions lead_example ((buildcaptions (Some transcript3) idle_state)
                               \<lparr>currentTime := 1.85\<rparr>)) = 0"
  by (simp add: transcript3_segments scan_from.simps lead_example_def synccaptions_def Let_def)
     (simp add: buildcaptions_def idle_state_def transcript3_def)

text \<open>
  Claim C2, amended: the query yields segment 0 at \<open>t = 1\<close>, segment 0 at \<open>t = 2\<close> (a shared
  boundary stays with the segment that ends there), no segment at \<open>t = 4.5\<close> and segment 2
  at \<open>t = 6\<close>.
\<close>

theorem transcript3_queries:
  "scan_from (segments (buildcaptions (Some transcript3) st)) 1 0 = 0 \<and>
   scan_from (segments (buildcaptions (Some transcript3) st)) 2 0 = 0 \<and>
   scan_from (segments (buildcaptions (Some transcript3) st)) 4.5 0 = - 1 \<and>
   scan_from (segments (buildcaptions (Some transcript3) st)) 6 0 = 2"
  by (simp add: transcript3_segments scan_from.simps)

text \<open>
  Claim C7.  On a list whose start times do not decrease, the loop with the early exit
  returns what the full scan returns: the first segment with \<open>start \<le> t \<le> end\<close>, or \<open>-1\<close>.
\<close>

theorem scan_from_refines_full_scan:
  "sorted (map seg_start segs) \<Longrightarrow> scan_from segs t 0 = full_scan segs t 0"
  using scan_from_full_scan [of segs t 0] by simp

theorem scan_from_refines_full_scan_witness:
  "sorted (map seg_start (segments (buildcaptions (Some transcript3) idle_state))) \<and>
   scan_from (segments (buildcaptions (Some transcript3) idle_state)) 4.5 0 = - 1 \<and>
   full_scan (segments (buildcaptions (Some transcript3) idle_state)) 4.5 0 = - 1"
proof -
  let ?segs = "segments (buildcaptions (Some transcript3) idle_state)"
  have h: "sorted (map seg_start ?segs)" by (simp add: transcript3_segments)
  show ?thesis
    using scan_from_refines_full_scan [OF h, of "4.5"] h
    by (simp add: transcript3_segments scan_from.simps)
qed

section \<open>The caption overlay follows the active index\<close>

lemma caption_inv_buildcaptions: "caption_inv (buildcaptions data st)"
  by (simp add: buildcaptions_def caption_inv_def Let_def split: option.splits)

lemma buildcaptions_fresh:
  "activeIdx (buildcaptions data st) = - 1 \<and> captionText (buildcaptions data st) = []"
  by (simp add: buildcaptions_def Let_def split: option.splits)

lemma caption_inv_currentTime [simp]:
  "caption_inv (st\<lparr>currentTime := c\<rparr>) = caption_inv st"
  by (simp add: caption_inv_def)

lemma shown_currentTime [simp]: "shown (st\<lparr>currentTime := c\<rparr>) = shown st"
  by (simp add: shown_def)

lemma scan_from_index:
  "scan_from segs t i \<noteq> - 1 \<Longrightarrow>
     0 \<le> scan_from segs t i \<and> nat (scan_from segs t i) < length segs"
  using scan_from_cases [of segs t i] scan_from_found [of segs t i] by auto

lemma synccaptions_captionText:
  assumes "segments st \<noteq> []" and "captionsVisible st" and "caption_inv st"
  shows "captionText (synccaptions lead st) =
           (if scan_from (segments st) (lead (currentTime st)) 0 = - 1 then []
            else seg_text (segments st ! nat (scan_from (segments st) (lead (currentTime st)) 0)))"
  using assms by (auto simp: synccaptions_def Let_def caption_inv_def)

lemma synccaptions_segments [simp]: "segments (synccaptions lead st) = segments st"
  by (simp add: synccaptions_def Let_def)

lemma synccaptions_captionsVisible [simp]: "captionsVisible (synccaptions lead st) = captionsVisible st"
  by (simp add: synccaptions_def Let_def)

lemma caption_inv_synccaptions: "caption_inv st \<Longrightarrow> caption_inv (synccaptions lead st)"
  using scan_from_index [of "segments st" "lead (currentTime st)" 0]
  by (auto simp: synccaptions_def Let_def caption_inv_def)

text \<open>Every other modelled operation keeps overlay and active index in agreement.\<close>

lemma caption_inv_run_frames: "caption_inv st \<Longrightarrow> caption_inv (run_frames lead st cs)"
  by (induction cs arbitrary: st) (simp_all add: caption_inv_synccaptions)

lemma caption_inv_show_reader: "caption_inv (show_reader pdfUrl audioUrl tscript title st)"
  by (simp add: show_reader_def Let_def caption_inv_buildcaptions)

lemma caption_inv_poll_callback:
  "caption_inv st \<Longrightarrow> caption_inv (poll_callback job res st)"
  by (cases res)
     (simp_all add: poll_callback_def caption_inv_show_reader, simp add: caption_inv_def setStatus_def)

lemma caption_inv_loadedmetadata:
  "caption_inv st \<Longrightarrow> caption_inv (loadedmetadata pathname parseFloat st)"
  by (simp add: loadedmetadata_def Let_def set_currentTime_def caption_inv_def
      split: option.splits jsnumber.splits)

lemma shown_synccaptions:
  assumes "segments st \<noteq> []" and "captionsVisible st"
  shows "shown (synccaptions lead st) =
           (if scan_from (segments st) (lead (currentTime st)) 0 = - 1 then {}
            else {nat (scan_from (segments st) (lead (currentTime st)) 0)})"
  using assms scan_from_index [of "segments st" "lead (currentTime st)" 0]
  by (auto simp: shown_def synccaptions_activeIdx)

lemma shown_inv:
  "caption_inv st \<Longrightarrow> shown st = (if activeIdx st = - 1 then {} else {nat (activeIdx st)})"
  by (auto simp: shown_def caption_inv_def)

text \<open>
  Claim C5.  Take a frame that runs on a state in which overlay and active index agree,
  and let \<open>idx\<close> be the index it computes.  If \<open>idx\<close> is the previous active index, the frame
  changes nothing.  If it differs, \<open>idx\<close> becomes the active index; the segment shown before
  (if there was one) leaves the display and the segment \<open>idx\<close> (unless \<open>idx = -1\<close>) enters it,
  each once, in this one step.  After the frame the overlay shows exactly segment \<open>idx\<close> and
  its text, and nothing when \<open>idx = -1\<close>.  The witness moves the clock over the boundary of
  (0,2), (2,4): \<open>t = 1.9\<close>, then \<open>t = 2.1\<close>.
\<close>

theorem synccaptions_transition:
  assumes "segments st \<noteq> []" and "captionsVisible st" and "caption_inv st"
  shows "let idx = scan_from (segments st) (lead (currentTime st)) 0;
             st' = synccaptions lead st
         in (idx = activeIdx st \<longrightarrow> st' = st) \<and>
            (idx \<noteq> activeIdx st \<longrightarrow>
               activeIdx st' = idx \<and>
               shown st - shown st' = (if activeIdx st = - 1 then {} else {nat (activeIdx st)}) \<and>
               shown st' - shown st = (if idx = - 1 then {} else {nat idx})) \<and>
            (idx = - 1 \<longrightarrow> shown st' = {} \<and> captionText st' = []) \<and>
            (idx \<noteq> - 1 \<longrightarrow>
               shown st' = {nat idx} \<and> captionText st' = seg_text (segments st ! nat idx))"
proof -
  define idx where "idx = scan_from (segments st) (lead (currentTime st)) 0"
  have same: "synccaptions lead st = st" if "idx = activeIdx st"
    using that by (simp add: synccaptions_def Let_def idx_def)
  have act: "activeIdx (synccaptions lead st) = idx"
    using assms(1,2) by (simp add: synccaptions_activeIdx idx_def)
  have sh': "shown (synccaptions lead st) = (if idx = - 1 then {} else {nat idx})"
    using shown_synccaptions [OF assms(1,2)] by (simp add: idx_def)
  have sh: "shown st = (if activeIdx st = - 1 then {} else {nat (activeIdx st)})"
    using assms(3) by (rule shown_inv)
  have cap: "captionText (synccaptions lead st) =
               (if idx = - 1 then [] else seg_text (segments st ! nat idx))"
    using synccaptions_captionText [OF assms] by (simp add: idx_def)
  have nonneg: "0 \<le> idx" if "idx \<noteq> - 1"
    using that scan_from_index [of "segments st" "lead (currentTime st)" 0] by (simp add: idx_def)
  have nonneg': "0 \<le> activeIdx st" if "activeIdx st \<noteq> - 1"
    using that assms(3) by (auto simp: caption_inv_def)
  have diff1: "shown st - shown (synccaptions lead st) =
                 (if activeIdx st = - 1 then {} else {nat (activeIdx st)})" if "idx \<noteq> activeIdx st"
    using that nonneg nonneg' by (auto simp: sh sh')
  have diff2: "shown (synccaptions lead st) - shown st = (if idx = - 1 then {} else {nat idx})"
    if "idx \<noteq> activeIdx st"
    using that nonneg nonneg' by (auto simp: sh sh')
  show ?thesis
    unfolding Let_def idx_def [symmetric]
    using same act diff1 diff2 sh' cap by simp
qed

theorem synccaptions_transition_witness:
  "shown (synccaptions lead_example ((buildcaptions (Some transcript2) idle_state)\<lparr>currentTime := 1.75\<rparr>)) = {0} \<and>
   shown (synccaptions lead_example ((synccaptions lead_example ((buildcaptions (Some transcript2) idle_state)
            \<lparr>currentTime := 1.75\<rparr>))\<lparr>currentTime := 1.95\<rparr>)) = {1} \<and>
   captionText (synccaptions lead_example ((synccaptions lead_example ((buildcaptions (Some transcript2) idle_state)
            \<lparr>currentTime := 1.75\<rparr>))\<lparr>currentTime := 1.95\<rparr>)) = utf16 ''two''"
proof -
  let ?built = "buildcaptions (Some transcript2) idle_state"
  let ?a = "synccaptions lead_example (?built\<lparr>currentTime := 1.75\<rparr>)"
  let ?b = "?a\<lparr>currentTime := 1.95\<rparr>"
  have vis: "captionsVisible ?built" by (simp add: ex_defs build_defs)
  have segs: "segments ?built \<noteq> []" by (simp add: transcript2_segments)
  have h1: "segments ?b \<noteq> []" using segs by simp
  have h2: "captionsVisible ?b" using vis by simp
  have h3: "caption_inv ?b"
    by (simp add: caption_inv_synccaptions caption_inv_buildcaptions)
  have a: "activeIdx ?a = 0"
    using vis by (simp add: synccaptions_activeIdx transcript2_segments scan_from.simps lead_example_def)
  have sa: "shown ?a = {0}"
    using vis by (simp add: shown_synccaptions transcript2_segments scan_from.simps lead_example_def)
  show ?thesis
    using synccaptions_transition [OF h1 h2 h3, where lead = lead_example] a sa
    by (simp add: Let_def transcript2_segments scan_from.simps lead_example_def)
qed

text \<open>
  Claim C6.  The index a frame computes depends on the segments and the clock only: two
  states with the same segments, whatever their active index, reach the same active index
  and the same overlay after a frame at the same clock value.  The witness seeks back from
  \<open>t = 6\<close> to \<open>t = 0.5\<close> and compares with a fresh start at \<open>t = 0.5\<close>.
\<close>

theorem synccaptions_stateless:
  assumes "segments st1 = segments st2" and "segments st1 \<noteq> []"
    and "captionsVisible st1" and "captionsVisible st2"
    and "caption_inv st1" and "caption_inv st2"
  shows "activeIdx (synccaptions lead (st1\<lparr>currentTime := c\<rparr>)) = scan_from (segments st1) (lead c) 0 \<and>
         activeIdx (synccaptions lead (st1\<lparr>currentTime := c\<rparr>)) =
           activeIdx (synccaptions lead (st2\<lparr>currentTime := c\<rparr>)) \<and>
         captionText (synccaptions lead (st1\<lparr>currentTime := c\<rparr>)) =
           captionText (synccaptions lead (st2\<lparr>currentTime := c\<rparr>)) \<and>
         shown (synccaptions lead (st1\<lparr>currentTime := c\<rparr>)) =
           shown (synccaptions lead (st2\<lparr>currentTime := c\<rparr>))"
proof -
  let ?a = "st1\<lparr>currentTime := c\<rparr>" and ?b = "st2\<lparr>currentTime := c\<rparr>"
  have a: "segments ?a \<noteq> []" "captionsVisible ?a" "caption_inv ?a"
    using assms by simp_all
  have b: "segments ?b \<noteq> []" "captionsVisible ?b" "caption_inv ?b"
    using assms by simp_all
  show ?thesis
    using assms(1)
    by (simp add: synccaptions_activeIdx [OF a(1,2)] synccaptions_activeIdx [OF b(1,2)]
        synccaptions_captionText [OF a] synccaptions_captionText [OF b]
        shown_synccaptions [OF a(1,2)] shown_synccaptions [OF b(1,2)])
qed

theorem synccaptions_stateless_witness:
  "activeIdx (synccaptions lead_example ((buildcaptions (Some transcript3) idle_state)\<lparr>currentTime := 5.85\<rparr>)) = 2 \<and>
   activeIdx (synccaptions lead_example ((synccaptions lead_example ((buildcaptions (Some transcript3) idle_state)
            \<lparr>currentTime := 5.85\<rparr>))\<lparr>currentTime := 0.35\<rparr>)) = 0 \<and>
   activeIdx (synccaptions lead_example ((buildcaptions (Some transcript3) idle_state)\<lparr>currentTime := 0.35\<rparr>)) = 0"
proof -
  let ?built = "buildcaptions (Some transcript3) idle_state"
  let ?later = "synccaptions lead_example (?built\<lparr>currentTime := 5.85\<rparr>)"
  have vis: "captionsVisible ?built" by (simp add: ex_defs build_defs)
  have h1: "segments ?later = segments ?built" by simp
  have h2: "segments ?later \<noteq> []" by (simp add: transcript3_segments)
  have h3: "captionsVisible ?later" using vis by simp
  have h5: "caption_inv ?later"
    by (simp add: caption_inv_synccaptions caption_inv_buildcaptions)
  have h6: "caption_inv ?built" by (rule caption_inv_buildcaptions)
  have l: "activeIdx ?later = 2"
    using vis by (simp add: synccaptions_activeIdx transcript3_segments scan_from.simps lead_example_def)
  show ?thesis
    using synccaptions_stateless [OF h1 h2 h3 vis h5 h6, where lead = lead_example and c = "0.35"] l
    by (simp add: transcript3_segments scan_from.simps lead_example_def)
qed

section \<open>The empty transcript\<close>

lemma run_frames_empty:
  "segments st = [] \<Longrightarrow>
     run_frames lead st cs = (if cs = [] then st else st\<lparr>currentTime := last cs\<rparr>)"
  by (induction cs arbitrary: st) (auto simp: synccaptions_def)

text \<open>
  Claim C8.  With no segments a frame returns at once, at every clock value: it leaves the
  state as it is, and so does every sequence of frames.
\<close>

theorem synccaptions_idle_on_empty:
  assumes "segments st = []"
  shows "synccaptions lead (st\<lparr>currentTime := c\<rparr>) = st\<lparr>currentTime := c\<rparr> \<and>
         segments (run_frames lead st cs) = [] \<and>
         activeIdx (run_frames lead st cs) = activeIdx st \<and>
         captionText (run_frames lead st cs) = captionText st"
  using assms by (simp add: run_frames_empty) (simp add: synccaptions_def)

theorem synccaptions_idle_on_empty_witness:
  "segments idle_state = [] \<and>
   activeIdx (run_frames lead_example idle_state [0, 1.5, 7]) = - 1 \<and>
   captionText (run_frames lead_example idle_state [0, 1.5, 7]) = []"
proof -
  have h: "segments idle_state = []" by (simp add: idle_state_def)
  have a: "activeIdx idle_state = - 1" by (simp add: idle_state_def)
  have c: "captionText idle_state = []" by (simp add: idle_state_def)
  show ?thesis
    using synccaptions_idle_on_empty
        [OF h, where lead = lead_example and c = 0 and cs = "[0, 1.5, 7]"] h a c
    by (simp del: run_frames.simps)
qed

section \<open>Trimming and joining\<close>

lemma trim_Nil [simp]: "trim [] = []"
  by (simp add: trim_def)

lemma trim_eq_Nil: "trim s = [] \<longleftrightarrow> (\<forall>c \<in> set s. is_ws c)"
proof
  assume "trim s = []"
  then have e: "dropWhile is_ws (rev (dropWhile is_ws s)) = []" by (simp add: trim_def)
  have "dropWhile is_ws s = []"
  proof (rule ccontr)
    assume ne: "dropWhile is_ws s \<noteq> []"
    then have "\<not> is_ws (hd (dropWhile is_ws s))" by (rule hd_dropWhile)
    moreover have "hd (dropWhile is_ws s) \<in> set (rev (dropWhile is_ws s))" using ne by simp
    ultimately show False using e by (auto simp: dropWhile_eq_Nil_conv)
  qed
  then show "\<forall>c \<in> set s. is_ws c" by (simp add: dropWhile_eq_Nil_conv)
next
  assume "\<forall>c \<in> set s. is_ws c"
  then have "dropWhile is_ws s = []" by (simp add: dropWhile_eq_Nil_conv)
  then show "trim s = []" unfolding trim_def by (simp only: rev.simps dropWhile.simps)
qed

lemma dropWhile_hd_id: "s \<noteq> [] \<Longrightarrow> \<not> P (hd s) \<Longrightarrow> dropWhile P s = s"
  by (cases s) auto

lemma trim_id:
  assumes "s \<noteq> []" and "\<not> is_ws (hd s)" and "\<not> is_ws (last s)"
  shows "trim s = s"
proof -
  have "dropWhile is_ws s = s" using assms(1,2) by (rule dropWhile_hd_id)
  moreover have "dropWhile is_ws (rev s) = rev s"
    using assms(1,3) by (intro dropWhile_hd_id) (simp_all add: hd_rev)
  ultimately show ?thesis by (simp add: trim_def)
qed

lemma last_dropWhile: "dropWhile P s \<noteq> [] \<Longrightarrow> last (dropWhile P s) = last s"
  by (induction s) (auto split: if_splits)

lemma trim_ends:
  assumes "trim s \<noteq> []"
  shows "\<not> is_ws (hd (trim s)) \<and> \<not> is_ws (last (trim s))"
proof -
  let ?d = "dropWhile is_ws s" and ?e = "dropWhile is_ws (rev (dropWhile is_ws s))"
  from assms have e: "?e \<noteq> []" by (simp add: trim_def)
  have d: "?d \<noteq> []"
  proof
    assume "?d = []"
    then have "?e = []" by (simp only: rev.simps dropWhile.simps)
    with e show False ..
  qed
  have "\<not> is_ws (hd ?e)" using e by (rule hd_dropWhile)
  then have l: "\<not> is_ws (last (trim s))" using e by (simp add: trim_def last_rev)
  have "last ?e = last (rev ?d)" using e by (rule last_dropWhile)
  also have "\<dots> = hd ?d" using d by (simp add: last_rev)
  finally have "last ?e = hd ?d" .
  moreover have "\<not> is_ws (hd ?d)" using d by (rule hd_dropWhile)
  ultimately have "\<not> is_ws (hd (trim s))" using e by (simp add: trim_def hd_rev)
  with l show ?thesis by simp
qed

lemma trim_idem: "trim (trim s) = trim s"
proof (cases "trim s = []")
  case True
  then show ?thesis by simp
next
  case False
  then show ?thesis using trim_ends [OF False] by (intro trim_id) simp_all
qed

lemma join_sp_ends:
  assumes "toks \<noteq> []" and "\<forall>x \<in> set toks. x \<noteq> []"
  shows "join_sp toks \<noteq> [] \<and> hd (join_sp toks) = hd (hd toks) \<and>
         last (join_sp toks) = last (last toks)"
  using assms
proof (induction toks rule: join_sp.induct)
  case 1
  then show ?case by simp
next
  case (2 x)
  then show ?case by simp
next
  case (3 x y ys)
  then show ?case by simp
qed

lemma trim_join_sp:
  assumes "ws \<noteq> []" and "\<forall>w \<in> set ws. \<exists>c \<in> set (w_word w). \<not> is_ws c"
  shows "trim (join_sp (map (\<lambda>w. trim (w_word w)) ws)) = join_sp (map (\<lambda>w. trim (w_word w)) ws)
         \<and> join_sp (map (\<lambda>w. trim (w_word w)) ws) \<noteq> []"
proof -
  let ?toks = "map (\<lambda>w. trim (w_word w)) ws"
  have ne: "?toks \<noteq> []" using assms(1) by simp
  have all: "\<forall>x \<in> set ?toks. x \<noteq> []" using assms(2) by (auto simp: trim_eq_Nil)
  from join_sp_ends [OF ne all]
  have j: "join_sp ?toks \<noteq> []" "hd (join_sp ?toks) = hd (hd ?toks)"
    "last (join_sp ?toks) = last (last ?toks)" by simp_all
  have "hd ?toks \<in> set ?toks" "last ?toks \<in> set ?toks"
    using ne by (rule hd_in_set, rule last_in_set)
  then have "hd ?toks \<noteq> []" "last ?toks \<noteq> []" using all by blast+
  moreover have "hd ?toks = trim (w_word (hd ws))" "last ?toks = trim (w_word (last ws))"
    using assms(1) by (simp_all add: hd_map last_map)
  ultimately have "\<not> is_ws (hd (hd ?toks))" "\<not> is_ws (last (last ?toks))"
    using trim_ends by metis+
  with j show ?thesis by (simp add: trim_id)
qed

section \<open>What \<open>buildcaptions\<close> keeps\<close>

lemma build_loop_filter:
  "build_loop raws acc =
     acc @ map (\<lambda>r. \<lparr>seg_text = trim (raw_text r), seg_start = start_of r, seg_end = end_of r\<rparr>)
             (filter (\<lambda>r. \<not> (\<forall>c \<in> set (raw_text r). is_ws c)) raws)"
  by (induction raws arbitrary: acc) (simp_all add: text_of_def trim_eq_Nil)

lemma buildcaptions_segments:
  "segments (buildcaptions (Some \<lparr>tr_segments = Some raws\<rparr>) st) = build_loop raws []"
  by (simp add: buildcaptions_def)

lemma build_loop_split:
  "build_loop (pre @ seg # post) [] =
     build_loop pre [] @
     (if text_of seg = [] then []
      else [\<lparr>seg_text = text_of seg, seg_start = start_of seg, seg_end = end_of seg\<rparr>]) @
     build_loop post []"
  by (simp add: build_loop_filter [of _ "[]"] text_of_def trim_eq_Nil)

text \<open>
  Claim C4.  The segment list that \<open>buildcaptions\<close> stores consists of the normalised raw
  segments whose reconstructed text has a character other than white space, in their
  order: a raw segment whose reconstructed text is empty or only white space is absent.
  Every stored segment has a text that is not empty and that trimming leaves as it is.
\<close>

theorem buildcaptions_drops_blank:
  "segments (buildcaptions (Some \<lparr>tr_segments = Some raws\<rparr>) st) =
     map (\<lambda>r. \<lparr>seg_text = trim (raw_text r), seg_start = start_of r, seg_end = end_of r\<rparr>)
       (filter (\<lambda>r. \<not> (\<forall>c \<in> set (raw_text r). is_ws c)) raws) \<and>
   (\<forall>s \<in> set (segments (buildcaptions (Some \<lparr>tr_segments = Some raws\<rparr>) st)).
      seg_text s \<noteq> [] \<and> trim (seg_text s) = seg_text s \<and> (\<exists>c \<in> set (seg_text s). \<not> is_ws c))"
proof -
  have eq: "segments (buildcaptions (Some \<lparr>tr_segments = Some raws\<rparr>) st) =
     map (\<lambda>r. \<lparr>seg_text = trim (raw_text r), seg_start = start_of r, seg_end = end_of r\<rparr>)
       (filter (\<lambda>r. \<not> (\<forall>c \<in> set (raw_text r). is_ws c)) raws)"
    by (simp add: buildcaptions_segments build_loop_filter)
  have "seg_text s \<noteq> [] \<and> trim (seg_text s) = seg_text s \<and> (\<exists>c \<in> set (seg_text s). \<not> is_ws c)"
    if "s \<in> set (segments (buildcaptions (Some \<lparr>tr_segments = Some raws\<rparr>) st))" for s
  proof -
    from that obtain r where r: "\<not> (\<forall>c \<in> set (raw_text r). is_ws c)" "seg_text s = trim (raw_text r)"
      unfolding eq by fastforce
    from r(1) have ne: "trim (raw_text r) \<noteq> []" by (simp add: trim_eq_Nil)
    then have "\<not> (\<forall>c \<in> set (trim (raw_text r)). is_ws c)"
      using trim_eq_Nil [of "trim (raw_text r)"] by (simp add: trim_idem)
    with ne r(2) show ?thesis by (auto simp: trim_idem)
  qed
  with eq show ?thesis by blast
qed

theorem buildcaptions_drops_blank_witness:
  "segments (buildcaptions (Some \<lparr>tr_segments = Some blank_raws\<rparr>) idle_state) =
     [\<lparr>seg_text = utf16 ''one'', seg_start = 0, seg_end = 2\<rparr>,
      \<lparr>seg_text = utf16 ''two'', seg_start = 5, seg_end = 7\<rparr>]"
  using buildcaptions_drops_blank [of blank_raws idle_state]
  by (simp add: ex_defs build_defs)

text \<open>
  Claim C3, as stated: a raw segment without a word list keeps its text verbatim, and the
  text of a segment with words is the single-space join of the trimmed tokens.  The code
  trims the text in both cases: a leading space of the segment's text is lost, and when
  the first token is white space the join loses its leading space.
\<close>

theorem buildcaptions_verbatim_counterexample:
  "r_text (plain_segment '' the cat'' 0.0 0.6) = Some (utf16 '' the cat'') \<and>
   map seg_text (segments (buildcaptions
       (Some \<lparr>tr_segments = Some [plain_segment '' the cat'' 0.0 0.6]\<rparr>) idle_state)) =
     [utf16 ''the cat''] \<and>
   utf16 ''the cat'' \<noteq> utf16 '' the cat'' \<and>
   map seg_text (segments (buildcaptions
       (Some \<lparr>tr_segments = Some [worded_segment [('' '', 0.0, 0.1), (''cat'', 0.1, 0.5)]]\<rparr>)
       idle_state)) =
     [utf16 ''cat''] \<and>
   join_sp (map trim [utf16 '' '', utf16 ''cat'']) = utf16 '' cat'' \<and>
   utf16 ''cat'' \<noteq> utf16 '' cat''"
  by (simp add: ex_defs build_defs)

text \<open>
  Claim C3, amended.  For a raw segment with a non-empty word list the text is the
  trimmed single-space join of the trimmed word tokens, which is the join itself when
  every token has a character other than white space; if this text is not empty the
  segment is stored with it, with the first word's start and the last word's end, and
  otherwise nothing is stored for it.  For a raw segment without a word list the text is
  the trimmed text of the segment; if it is not empty the segment is stored with it and
  with its own start and end, and otherwise nothing is stored.  The segment may stand
  anywhere in the transcript.
\<close>

theorem buildcaptions_normalises:
  "(r_words seg = Some ws \<and> ws \<noteq> [] \<longrightarrow>
      (let txt = trim (join_sp (map (\<lambda>w. trim (w_word w)) ws))
       in segments (buildcaptions (Some \<lparr>tr_segments = Some (pre @ seg # post)\<rparr>) st) =
            build_loop pre [] @
            (if txt = [] then []
             else [\<lparr>seg_text = txt, seg_start = w_start (hd ws), seg_end = w_end (last ws)\<rparr>]) @
            build_loop post [] \<and>
          ((\<forall>w \<in> set ws. \<exists>c \<in> set (w_word w). \<not> is_ws c) \<longrightarrow>
             txt = join_sp (map (\<lambda>w. trim (w_word w)) ws) \<and> txt \<noteq> []))) \<and>
   (r_words seg = None \<longrightarrow>
      (let txt = trim (case r_text seg of None \<Rightarrow> [] | Some s \<Rightarrow> s)
       in segments (buildcaptions (Some \<lparr>tr_segments = Some (pre @ seg # post)\<rparr>) st) =
            build_loop pre [] @
            (if txt = [] then []
             else [\<lparr>seg_text = txt, seg_start = r_start seg, seg_end = r_end seg\<rparr>]) @
            build_loop post []))"
proof (intro conjI impI)
  assume w: "r_words seg = Some ws \<and> ws \<noteq> []"
  then have "hasW seg" "words_of seg = ws" by (simp_all add: hasW_def words_of_def)
  then have "text_of seg = trim (join_sp (map (\<lambda>w. trim (w_word w)) ws))"
    "start_of seg = w_start (hd ws)" "end_of seg = w_end (last ws)"
    by (simp_all add: text_of_def raw_text_def start_of_def end_of_def)
  moreover have "(\<forall>w \<in> set ws. \<exists>c \<in> set (w_word w). \<not> is_ws c) \<longrightarrow>
      trim (join_sp (map (\<lambda>w. trim (w_word w)) ws)) = join_sp (map (\<lambda>w. trim (w_word w)) ws) \<and>
      trim (join_sp (map (\<lambda>w. trim (w_word w)) ws)) \<noteq> []"
    using w trim_join_sp [of ws] by auto
  ultimately show "let txt = trim (join_sp (map (\<lambda>w. trim (w_word w)) ws))
       in segments (buildcaptions (Some \<lparr>tr_segments = Some (pre @ seg # post)\<rparr>) st) =
            build_loop pre [] @
            (if txt = [] then []
             else [\<lparr>seg_text = txt, seg_start = w_start (hd ws), seg_end = w_end (last ws)\<rparr>]) @
            build_loop post [] \<and>
          ((\<forall>w \<in> set ws. \<exists>c \<in> set (w_word w). \<not> is_ws c) \<longrightarrow>
             txt = join_sp (map (\<lambda>w. trim (w_word w)) ws) \<and> txt \<noteq> [])"
    unfolding Let_def buildcaptions_segments build_loop_split by auto
next
  assume "r_words seg = None"
  then have "\<not> hasW seg" by (simp add: hasW_def)
  then have "text_of seg = trim (case r_text seg of None \<Rightarrow> [] | Some s \<Rightarrow> s)"
    "start_of seg = r_start seg" "end_of seg = r_end seg"
    by (simp_all add: text_of_def raw_text_def start_of_def end_of_def)
  then show "let txt = trim (case r_text seg of None \<Rightarrow> [] | Some s \<Rightarrow> s)
       in segments (buildcaptions (Some \<lparr>tr_segments = Some (pre @ seg # post)\<rparr>) st) =
            build_loop pre [] @
            (if txt = [] then []
             else [\<lparr>seg_text = txt, seg_start = r_start seg, seg_end = r_end seg\<rparr>]) @
            build_loop post []"
    unfolding Let_def buildcaptions_segments build_loop_split by simp
qed

theorem buildcaptions_normalises_witness:
  "segments (buildcaptions (Some \<lparr>tr_segments = Some [the_cat]\<rparr>) idle_state) =
     [\<lparr>seg_text = utf16 ''the cat'', seg_start = 0.0, seg_end = 0.5\<rparr>] \<and>
   segments (buildcaptions (Some \<lparr>tr_segments = Some [plain_segment ''the cat'' 0.0 0.6]\<rparr>)
               idle_state) =
     [\<lparr>seg_text = utf16 ''the cat'', seg_start = 0.0, seg_end = 0.6\<rparr>]"
proof -
  let ?ws = "[\<lparr>w_word = utf16 ''the'', w_start = 0.0, w_end = 0.2\<rparr>,
              \<lparr>w_word = utf16 ''cat'', w_start = 0.2, w_end = (0.5::real)\<rparr>]"
  have w: "r_words the_cat = Some ?ws \<and> ?ws \<noteq> []"
    by (simp add: the_cat_def worded_segment_def)
  have n: "r_words (plain_segment ''the cat'' 0.0 0.6) = None"
    by (simp add: plain_segment_def)
  have a: "segments (buildcaptions (Some \<lparr>tr_segments = Some [the_cat]\<rparr>) idle_state) =
     [\<lparr>seg_text = utf16 ''the cat'', seg_start = 0.0, seg_end = 0.5\<rparr>]"
    using buildcaptions_normalises [of the_cat ?ws "[]" "[]" idle_state] w
    by (simp add: Let_def utf16_def trim_def is_ws_def)
  have b: "segments (buildcaptions (Some \<lparr>tr_segments = Some [plain_segment ''the cat'' 0.0 0.6]\<rparr>)
               idle_state) =
     [\<lparr>seg_text = utf16 ''the cat'', seg_start = 0.0, seg_end = 0.6\<rparr>]"
    using buildcaptions_normalises [of "plain_segment ''the cat'' 0.0 0.6" "[]" "[]" "[]" idle_state] n
    by (simp add: Let_def utf16_def trim_def is_ws_def plain_segment_def)
  from a b show ?thesis by simp
qed

section \<open>Polling\<close>

lemma reader_view_poll_callback:
  "\<not> is_completed res \<Longrightarrow> reader_view (poll_callback job res st) = reader_view st"
  by (cases res) (simp_all add: poll_callback_def is_completed_def reader_view_def setStatus_def)

lemma reader_view_poll_run:
  "\<forall>r \<in> set rs. \<not> is_completed r \<Longrightarrow> reader_view (poll_run job rs st) = reader_view st"
  by (induction rs arbitrary: st) (simp_all add: reader_view_poll_callback)

lemma buildcaptions_other_fields:
  "mainContentDisplay (buildcaptions d st) = mainContentDisplay st \<and>
   pdfPanelDisplay (buildcaptions d st) = pdfPanelDisplay st \<and>
   pdfFrameSrc (buildcaptions d st) = pdfFrameSrc st \<and>
   pdfFrameDisplay (buildcaptions d st) = pdfFrameDisplay st \<and>
   audioSrc (buildcaptions d st) = audioSrc st \<and>
   audioBarDisplay (buildcaptions d st) = audioBarDisplay st \<and>
   poll (buildcaptions d st) = poll st \<and>
   currentJobId (buildcaptions d st) = currentJobId st"
  by (simp add: buildcaptions_def Let_def split: option.splits)

lemma poll_callback_completed:
  assumes "d_status d = ''completed''"
  shows "poll (poll_callback job (Body d) st) = None \<and>
         currentJobId (poll_callback job (Body d) st) = Some job \<and>
         mainContentDisplay (poll_callback job (Body d) st) = ''flex'' \<and>
         pdfFrameDisplay (poll_callback job (Body d) st) = ''block'' \<and>
         audioBarDisplay (poll_callback job (Body d) st) = ''block'' \<and>
         audioSrc (poll_callback job (Body d) st) = d_audio_url d \<and>
         segments (poll_callback job (Body d) st) =
           segments (buildcaptions (d_transcript d) st)"
  using assms
  by (simp add: poll_callback_def show_reader_def Let_def buildcaptions_other_fields
      applyPanelVisibility_def setStatus_def)
     (simp add: buildcaptions_def Let_def split: option.splits)

text \<open>
  Claim C9.  A poll changes the reader view only when the polled status is
  \<open>completed\<close>, and then it opens the reader with the job's audio and captions.  When the
  status is \<open>error\<close> the timer is stopped, the status line reads \<open>Error\<close>, and the reader view
  and the current job stay as they were.  No sequence of polls without a \<open>completed\<close>
  status opens the reader.
\<close>

theorem poll_opens_reader_only_when_completed:
  "(reader_view (poll_callback job res st) \<noteq> reader_view st \<longrightarrow> is_completed res) \<and>
   (\<forall>d. res = Body d \<and> d_status d = ''completed'' \<longrightarrow>
      mainContentDisplay (poll_callback job res st) = ''flex'' \<and>
      audioSrc (poll_callback job res st) = d_audio_url d \<and>
      segments (poll_callback job res st) = segments (buildcaptions (d_transcript d) st) \<and>
      currentJobId (poll_callback job res st) = Some job) \<and>
   (\<forall>d. res = Body d \<and> d_status d = ''error'' \<longrightarrow>
      poll (poll_callback job res st) = None \<and>
      statusText (poll_callback job res st) = ''Error'' \<and>
      statusClass (poll_callback job res st) = ''status-msg error'' \<and>
      reader_view (poll_callback job res st) = reader_view st \<and>
      currentJobId (poll_callback job res st) = currentJobId st) \<and>
   ((\<forall>r \<in> set rs. \<not> is_completed r) \<longrightarrow> reader_view (poll_run job rs st) = reader_view st)"
proof (intro conjI allI impI)
  assume "reader_view (poll_callback job res st) \<noteq> reader_view st"
  then show "is_completed res" using reader_view_poll_callback by blast
next
  fix d assume "res = Body d \<and> d_status d = ''completed''"
  then show "mainContentDisplay (poll_callback job res st) = ''flex''"
    "audioSrc (poll_callback job res st) = d_audio_url d"
    "segments (poll_callback job res st) = segments (buildcaptions (d_transcript d) st)"
    "currentJobId (poll_callback job res st) = Some job"
    using poll_callback_completed [of d job st] by simp_all
next
  fix d assume e: "res = Body d \<and> d_status d = ''error''"
  then show "poll (poll_callback job res st) = None"
    "statusText (poll_callback job res st) = ''Error''"
    "statusClass (poll_callback job res st) = ''status-msg error''"
    "currentJobId (poll_callback job res st) = currentJobId st"
    by (simp_all add: poll_callback_def setStatus_def)
  from e have "\<not> is_completed res" by (simp add: is_completed_def)
  then show "reader_view (poll_callback job res st) = reader_view st"
    by (rule reader_view_poll_callback)
next
  assume "\<forall>r \<in> set rs. \<not> is_completed r"
  then show "reader_view (poll_run job rs st) = reader_view st"
    by (rule reader_view_poll_run)
qed


theorem poll_opens_reader_only_when_completed_witness:
  "poll (poll_callback ''j1'' (Body error_body) (startPoll ''j1'' idle_state)) = None \<and>
   statusText (poll_callback ''j1'' (Body error_body) (startPoll ''j1'' idle_state)) = ''Error'' \<and>
   reader_view (poll_callback ''j1'' (Body error_body) (startPoll ''j1'' idle_state)) =
     reader_view idle_state \<and>
   reader_view (poll_run ''j1'' [NotOk, Body queued_body, Body error_body]
                  (startPoll ''j1'' idle_state)) = reader_view idle_state \<and>
   mainContentDisplay (poll_callback ''j1'' (Body completed_body) (startPoll ''j1'' idle_state)) =
     ''flex''"
proof -
  have e: "Body error_body = Body error_body \<and> d_status error_body = ''error''"
    by (simp add: error_body_def)
  have c: "Body completed_body = Body completed_body \<and> d_status completed_body = ''completed''"
    by (simp add: completed_body_def)
  have n: "\<forall>r \<in> set [NotOk, Body queued_body, Body error_body]. \<not> is_completed r"
    by (simp add: is_completed_def queued_body_def error_body_def)
  have r: "reader_view (startPoll ''j1'' idle_state) = reader_view idle_state"
    by (simp add: startPoll_def reader_view_def)
  have a: "poll (poll_callback ''j1'' (Body error_body) (startPoll ''j1'' idle_state)) = None \<and>
   statusText (poll_callback ''j1'' (Body error_body) (startPoll ''j1'' idle_state)) = ''Error'' \<and>
   reader_view (poll_callback ''j1'' (Body error_body) (startPoll ''j1'' idle_state)) =
     reader_view idle_state \<and>
   reader_view (poll_run ''j1'' [NotOk, Body queued_body, Body error_body]
                  (startPoll ''j1'' idle_state)) = reader_view idle_state"
    using poll_opens_reader_only_when_completed
      [of "''j1''" "Body error_body" "startPoll ''j1'' idle_state"
          "[NotOk, Body queued_body, Body error_body]"] e n r
    by (simp del: poll_run.simps)
  have b: "mainContentDisplay (poll_callback ''j1'' (Body completed_body)
             (startPoll ''j1'' idle_state)) = ''flex''"
    using poll_opens_reader_only_when_completed
      [of "''j1''" "Body completed_body" "startPoll ''j1'' idle_state" "[]"] c
    by simp
  from a b show ?thesis by simp
qed

section \<open>The restored position\<close>

lemma loadedmetadata_currentTime:
  "currentTime (loadedmetadata pathname parseFloat st) =
     (case localStorage st (''pos_'' @ pathname (audioSrc st)) of
        None \<Rightarrow> currentTime st
      | Some s \<Rightarrow>
          (case parseFloat s of
             Num v \<Rightarrow> if s \<noteq> [] \<and> v > 2 then v else currentTime st
           | _ \<Rightarrow> currentTime st))"
  by (simp add: loadedmetadata_def Let_def set_currentTime_def
      split: option.splits jsnumber.splits)

text \<open>
  Claim C10.  When the metadata of the audio is loaded, the playback position changes only
  if the value stored for this audio parses to a number above 2, and then it becomes this
  number.  Without a stored value, with one that does not parse, or with one that parses
  to 2 or less, the position stays as it was.
\<close>

theorem loadedmetadata_restores_above_two:
  "(currentTime (loadedmetadata pathname parseFloat st) \<noteq> currentTime st \<longrightarrow>
      (\<exists>s v. localStorage st (''pos_'' @ pathname (audioSrc st)) = Some s \<and>
             parseFloat s = Num v \<and> v > 2 \<and>
             currentTime (loadedmetadata pathname parseFloat st) = v)) \<and>
   (\<forall>s v. localStorage st (''pos_'' @ pathname (audioSrc st)) = Some s \<and> s \<noteq> [] \<and>
          parseFloat s = Num v \<and> v > 2 \<longrightarrow>
          currentTime (loadedmetadata pathname parseFloat st) = v) \<and>
   (localStorage st (''pos_'' @ pathname (audioSrc st)) = None \<longrightarrow>
      currentTime (loadedmetadata pathname parseFloat st) = currentTime st) \<and>
   (\<forall>s. localStorage st (''pos_'' @ pathname (audioSrc st)) = Some s \<and> parseFloat s = NaN \<longrightarrow>
      currentTime (loadedmetadata pathname parseFloat st) = currentTime st) \<and>
   (\<forall>s v. localStorage st (''pos_'' @ pathname (audioSrc st)) = Some s \<and>
          parseFloat s = Num v \<and> v \<le> 2 \<longrightarrow>
          currentTime (loadedmetadata pathname parseFloat st) = currentTime st)"
  unfolding loadedmetadata_currentTime
  by (auto split: option.splits jsnumber.splits)

theorem loadedmetadata_restores_above_two_witness:
  "currentTime (loadedmetadata (\<lambda>u. u) parse_example (stored_state ''12.5'')) = 12.5 \<and>
   currentTime (loadedmetadata (\<lambda>u. u) parse_example (stored_state ''1.5'')) = 0 \<and>
   currentTime (loadedmetadata (\<lambda>u. u) parse_example (stored_state ''abc'')) = 0 \<and>
   currentTime (loadedmetadata (\<lambda>u. u) parse_example idle_state) = 0"
proof -
  have k: "localStorage (stored_state v) (''pos_'' @ audioSrc (stored_state v)) = Some v" for v
    by (simp add: stored_state_def)
  have t: "currentTime (stored_state v) = 0" for v
    by (simp add: stored_state_def idle_state_def)
  have p: "parse_example ''12.5'' = Num 12.5" "parse_example ''1.5'' = Num 1.5"
    "parse_example ''abc'' = NaN"
    by (simp_all add: parse_example_def)
  have i: "localStorage idle_state (''pos_'' @ audioSrc idle_state) = None"
    "currentTime idle_state = 0"
    by (simp_all add: idle_state_def)
  note c2 = conjunct2
  have a: "currentTime (loadedmetadata (\<lambda>u. u) parse_example (stored_state ''12.5'')) = 12.5"
    using loadedmetadata_restores_above_two
      [of "\<lambda>u. u" parse_example "stored_state ''12.5''",
       THEN c2, THEN conjunct1, rule_format, of "''12.5''" "12.5"]
      k [of "''12.5''"] p by simp
  have b: "currentTime (loadedmetadata (\<lambda>u. u) parse_example (stored_state ''1.5'')) = 0"
    using loadedmetadata_restores_above_two
      [of "\<lambda>u. u" parse_example "stored_state ''1.5''",
       THEN c2, THEN c2, THEN c2, THEN c2, rule_format, of "''1.5''" "1.5"]
      k [of "''1.5''"] t [of "''1.5''"] p by simp
  have c: "currentTime (loadedmetadata (\<lambda>u. u) parse_example (stored_state ''abc'')) = 0"
    using loadedmetadata_restores_above_two
      [of "\<lambda>u. u" parse_example "stored_state ''abc''",
       THEN c2, THEN c2, THEN c2, THEN conjunct1, rule_format, of "''abc''"]
      k [of "''abc''"] t [of "''abc''"] p by simp
  have d: "currentTime (loadedmetadata (\<lambda>u. u) parse_example idle_state) = 0"
    using loadedmetadata_restores_above_two
      [of "\<lambda>u. u" parse_example idle_state, THEN c2, THEN c2, THEN conjunct1] i by simp
  from a b c d show ?thesis by simp
qed

end
